theory Spec2Isabelle
  imports Complex_Main "HOL-Library.Word"
begin

section \<open>Values of the runtime\<close>

text \<open>
  A Node.js \<open>Buffer\<close> is a sequence of bytes. A JavaScript string is a sequence of
  UTF-16 code units. A JavaScript \<open>number\<close> is a double: every finite double is a
  rational, and the only operations the field codec applies to a number are comparison
  with an integer bound and truncation to an integer, both exact, so finite numbers are
  modelled as rationals, next to \<open>NaN\<close> and the two infinities.
\<close>

type_synonym byte = "8 word"
type_synonym Buffer = "byte list"
type_synonym jsstring = "16 word list"

datatype number = Finite rat | NaN | PosInfinity | NegInfinity

text \<open>
  The values the constructors of the field classes take
  (\<open>number | Buffer\<close> for the numeric fields, \<open>Buffer | string\<close> for \<open>String\<close>);
  the source tells them apart with \<open>typeof\<close>.
\<close>

datatype jsvalue = VNumber number | VBuffer Buffer | VString jsstring

subsection \<open>Field types\<close>

datatype FieldType = UInt8 | UInt16 | UInt32 | String | Binary

fun tag :: "FieldType \<Rightarrow> byte" where
  "tag UInt8 = 0x0f"
| "tag UInt16 = 0x10"
| "tag UInt32 = 0x11"
| "tag String = 0x26"
| "tag Binary = 0x14"

text \<open>
  What the source throws. It has no error classes of its own: \<open>read\<close> throws
  \<open>Error('Expected buffer from stream read')\<close>, \<open>readField\<close> throws
  \<open>Error('Expected X but got Y')\<close>, reading a property of \<open>undefined\<close> is a
  \<open>TypeError\<close>, the Buffer accessors throw a \<open>RangeError\<close> on a value or an
  offset out of range, and \<open>swap16\<close> throws on a buffer of odd length.
\<close>

datatype error =
    ExpectedBuffer
  | ExpectedButGot FieldType FieldType
  | TypeError
  | RangeError
  | InvalidBufferSize

subsection \<open>The Buffer accessors of Node.js\<close>

text \<open>Big-endian bytes of the low \<open>n\<close> bytes of a natural number, and back.\<close>

fun be_bytes :: "nat \<Rightarrow> nat \<Rightarrow> Buffer" where
  "be_bytes 0 x = []"
| "be_bytes (Suc n) x = be_bytes n (x div 256) @ [of_nat x]"

definition be_value :: "Buffer \<Rightarrow> nat" where
  "be_value bs = foldl (\<lambda>acc b. acc * 256 + unat b) 0 bs"

text \<open>
  \<open>buf.readUInt8()\<close>, \<open>buf.readUInt16BE()\<close> and \<open>buf.readUInt32BE()\<close> at offset 0:
  the first \<open>bytes\<close> bytes as a big-endian unsigned integer; a \<open>RangeError\<close> when the
  buffer has fewer bytes. Bytes beyond the first \<open>bytes\<close> are not looked at.
\<close>

definition readUIntBE :: "nat \<Rightarrow> Buffer \<Rightarrow> error + nat" where
  "readUIntBE bytes buf =
     (if length buf < bytes then Inl RangeError else Inr (be_value (take bytes buf)))"

text \<open>
  ECMAScript's \<open>ToUint32\<close>, which the typed-array stores and \<open>>>>\<close> of the write
  accessors apply: truncate towards zero, modulo \<open>2^32\<close>; \<open>NaN\<close> and the infinities
  give 0.
\<close>

fun ToUint32 :: "number \<Rightarrow> nat" where
  "ToUint32 (Finite q) =
     nat ((if q < 0 then - \<lfloor>- q\<rfloor> else \<lfloor>q\<rfloor>) mod 2 ^ 32)"
| "ToUint32 NaN = 0"
| "ToUint32 PosInfinity = 0"
| "ToUint32 NegInfinity = 0"

text \<open>
  The range check of the write accessors: \<open>value > max || value < min\<close> with
  \<open>min = 0\<close>. Every comparison with \<open>NaN\<close> is false.
\<close>

fun out_of_range :: "number \<Rightarrow> nat \<Rightarrow> bool" where
  "out_of_range (Finite q) mx = (of_nat mx < q \<or> q < 0)"
| "out_of_range NaN mx = False"
| "out_of_range PosInfinity mx = True"
| "out_of_range NegInfinity mx = True"

text \<open>
  \<open>Buffer.alloc(bytes)\<close> followed by \<open>data.writeUInt8(value)\<close>,
  \<open>data.writeUInt16BE(value)\<close> or \<open>data.writeUInt32BE(value)\<close>: a \<open>RangeError\<close>
  when the value is out of range, else the big-endian bytes of the truncated value.
\<close>

definition writeUIntBE :: "nat \<Rightarrow> number \<Rightarrow> error + Buffer" where
  "writeUIntBE bytes v =
     (if out_of_range v (2 ^ (8 * bytes) - 1) then Inl RangeError
      else Inr (be_bytes bytes (ToUint32 v)))"

text \<open>\<open>buf.swap16()\<close>: swaps the bytes of every 16-bit unit; throws on an odd length.\<close>

fun swap_pairs :: "Buffer \<Rightarrow> Buffer" where
  "swap_pairs (a # b # rest) = b # a # swap_pairs rest"
| "swap_pairs rest = rest"

definition swap16 :: "Buffer \<Rightarrow> error + Buffer" where
  "swap16 buf = (if odd (length buf) then Inl InvalidBufferSize else Inr (swap_pairs buf))"

text \<open>
  \<open>Buffer.from(s, 'utf16le')\<close>: every code unit as two bytes, low byte first; and
  \<open>buf.toString('utf16le')\<close>: every two bytes as one code unit (a trailing single
  byte is dropped).
\<close>

fun utf16le_bytes :: "jsstring \<Rightarrow> Buffer" where
  "utf16le_bytes [] = []"
| "utf16le_bytes (c # cs) =
     of_nat (unat c mod 256) # of_nat (unat c div 256) # utf16le_bytes cs"

fun utf16le_string :: "Buffer \<Rightarrow> jsstring" where
  "utf16le_string (lo # hi # rest) = of_nat (unat hi * 256 + unat lo) # utf16le_string rest"
| "utf16le_string rest = []"

section \<open>The field classes\<close>

text \<open>
  A field object: the class it belongs to (for the three numeric classes, the type
  \<open>makeNumberField\<close> was applied to), its \<open>value\<close> and its raw \<open>data\<close>.
\<close>

datatype Field =
    NumberField FieldType number Buffer
  | StringField jsstring Buffer
  | BinaryField Buffer Buffer

fun data :: "Field \<Rightarrow> Buffer" where
  "data (NumberField t v d) = d"
| "data (StringField v d) = d"
| "data (BinaryField v d) = d"

fun field_type :: "Field \<Rightarrow> FieldType" where
  "field_type (NumberField t v d) = t"
| "field_type (StringField v d) = String"
| "field_type (BinaryField v d) = Binary"

text \<open>
  \<open>numberBufferInfo[type][0]\<close>: the byte count of a numeric type. The table has no
  entry for \<open>String\<close> and \<open>Binary\<close> (the type \<open>NumberFieldType\<close> excludes them).
\<close>

fun numberBufferInfo :: "FieldType \<Rightarrow> nat option" where
  "numberBufferInfo UInt8 = Some 1"
| "numberBufferInfo UInt16 = Some 2"
| "numberBufferInfo UInt32 = Some 4"
| "numberBufferInfo String = None"
| "numberBufferInfo Binary = None"

definition parseNumber :: "jsvalue \<Rightarrow> FieldType \<Rightarrow> error + (number \<times> Buffer)" where
  "parseNumber val type =
     (case numberBufferInfo type of
        None \<Rightarrow> Inl TypeError
      | Some bytes \<Rightarrow>
          (case val of
             VNumber v \<Rightarrow>
               (case writeUIntBE bytes v of
                  Inl e \<Rightarrow> Inl e
                | Inr d \<Rightarrow> Inr (v, d))
           | VBuffer b \<Rightarrow>
               (case readUIntBE bytes b of
                  Inl e \<Rightarrow> Inl e
                | Inr n \<Rightarrow> Inr (Finite (of_nat n), b))
           | VString s \<Rightarrow> Inl TypeError))"

text \<open>
  \<open>makeVariableBuffer\<close>: the tag, the length of the data as a 32-bit big-endian
  integer, the data. \<open>writeUInt32BE\<close> throws when the length does not fit.
\<close>

definition makeVariableBuffer :: "FieldType \<Rightarrow> Buffer \<Rightarrow> error + Buffer" where
  "makeVariableBuffer type fieldData =
     (case writeUIntBE 4 (Finite (of_nat (length fieldData))) of
        Inl e \<Rightarrow> Inl e
      | Inr len \<Rightarrow> Inr (tag type # len @ fieldData))"

text \<open>The constructor of the class \<open>makeNumberField(type)\<close>.\<close>

definition makeNumberField :: "FieldType \<Rightarrow> jsvalue \<Rightarrow> error + Field" where
  "makeNumberField type val =
     (case parseNumber val type of
        Inl e \<Rightarrow> Inl e
      | Inr (n, d) \<Rightarrow> Inr (NumberField type n d))"

text \<open>
  The constructor of \<open>String\<close>. From a string: the data is the UTF-16 little-endian
  encoding with every pair swapped. From a buffer: the value is the decoding of a copy
  with every pair swapped, the data is the buffer itself. \<open>Buffer.from\<close> of a number
  is a \<open>TypeError\<close>.
\<close>

definition String_new :: "jsvalue \<Rightarrow> error + Field" where
  "String_new val =
     (case val of
        VString s \<Rightarrow>
          (case swap16 (utf16le_bytes s) of
             Inl e \<Rightarrow> Inl e
           | Inr d \<Rightarrow> Inr (StringField s d))
      | VBuffer b \<Rightarrow>
          (case swap16 b of
             Inl e \<Rightarrow> Inl e
           | Inr sw \<Rightarrow> Inr (StringField (utf16le_string sw) b))
      | VNumber v \<Rightarrow> Inl TypeError)"

definition Binary_new :: "Buffer \<Rightarrow> Field" where
  "Binary_new val = BinaryField val val"

text \<open>The getter \<open>buffer\<close> of the three kinds of field.\<close>

fun buffer :: "Field \<Rightarrow> error + Buffer" where
  "buffer (NumberField t v d) = Inr (tag t # d)"
| "buffer (StringField v d) = makeVariableBuffer String d"
| "buffer (BinaryField v d) = makeVariableBuffer Binary d"

text \<open>
  \<open>fieldMap\<close>, indexed by the tag byte read from the stream: the class, or
  \<open>undefined\<close> for any other byte.
\<close>

definition fieldMap :: "byte \<Rightarrow> FieldType option" where
  "fieldMap b =
     (if b = 0x0f then Some UInt8
      else if b = 0x10 then Some UInt16
      else if b = 0x11 then Some UInt32
      else if b = 0x26 then Some String
      else if b = 0x14 then Some Binary
      else None)"

text \<open>\<open>new Field(buf)\<close> for the class \<open>Field\<close> found in \<open>fieldMap\<close>.\<close>

fun Field_new :: "FieldType \<Rightarrow> Buffer \<Rightarrow> error + Field" where
  "Field_new String buf = String_new (VBuffer buf)"
| "Field_new Binary buf = Inr (Binary_new buf)"
| "Field_new t buf = makeNumberField t (VBuffer buf)"

text \<open>
  The static members of the classes. \<open>makeNumberField\<close> and \<open>Binary\<close> declare
  \<open>static type\<close>. \<open>String\<close> declares \<open>type\<close> without \<open>static\<close>, as a property of
  its instances, so \<open>String.type\<close> read from the class is the static \<open>type\<close> of
  \<open>BaseField\<close>, which has no value: \<open>undefined\<close>.
\<close>

fun static_type :: "FieldType \<Rightarrow> FieldType option" where
  "static_type UInt8 = Some UInt8"
| "static_type UInt16 = Some UInt16"
| "static_type UInt32 = Some UInt32"
| "static_type String = None"
| "static_type Binary = Some Binary"

text \<open>\<open>static bytesToRead\<close>; \<open>None\<close> is the source's \<open>false\<close>.\<close>

fun bytesToRead :: "FieldType \<Rightarrow> nat option" where
  "bytesToRead String = None"
| "bytesToRead Binary = None"
| "bytesToRead t = numberBufferInfo t"

section \<open>Reading a field from a stream\<close>

text \<open>
  The stream is a \<open>PromiseReadable\<close> over a Node.js \<open>Readable\<close>; its state here is
  the bytes that arrive before the stream ends and have not been consumed.
  \<open>stream.read(n)\<close> resolves with what \<open>Readable.read(n)\<close> returns as soon as that is
  not \<open>null\<close>, and with \<open>undefined\<close> when the stream ends or closes first. Node documents
  \<open>Readable.read(n)\<close>: when \<open>n\<close> bytes are not available it returns \<open>null\<close>, unless
  the stream has ended, in which case it returns all the data that remains; and
  \<open>read(0)\<close> always returns \<open>null\<close>. So a read of \<open>n > 0\<close> bytes resolves with the
  next \<open>n\<close> bytes, with the shorter rest when the stream ends before \<open>n\<close> bytes have
  arrived, and with \<open>undefined\<close> when nothing is left; a read of 0 bytes never resolves
  with a buffer, only with \<open>undefined\<close> when the stream ends or closes.
\<close>

type_synonym stream = "byte list"

datatype chunk = Chunk Buffer | Undefined

definition stream_read :: "stream \<Rightarrow> nat \<Rightarrow> chunk \<times> stream" where
  "stream_read s n =
     (if n = 0 \<or> s = [] then (Undefined, s) else (Chunk (take n s), drop n s))"

text \<open>The helper \<open>read\<close>: the chunk when it is a \<open>Buffer\<close>, else it throws.\<close>

definition read :: "stream \<Rightarrow> nat \<Rightarrow> (error + Buffer) \<times> stream" where
  "read s bytes =
     (case stream_read s bytes of
        (Chunk d, s') \<Rightarrow> (Inr d, s')
      | (Undefined, s') \<Rightarrow> (Inl ExpectedBuffer, s'))"

text \<open>
  \<open>fieldMap[typeData[0]]\<close>: indexing an empty buffer is \<open>undefined\<close>, and so is
  \<open>fieldMap[undefined]\<close>.
\<close>

definition lookupField :: "Buffer \<Rightarrow> FieldType option" where
  "lookupField typeData = (case typeData of [] \<Rightarrow> None | b # _ \<Rightarrow> fieldMap b)"

text \<open>
  \<open>if (expect && Field.type !== expect) throw ...\<close>: every \<open>FieldType\<close> is a non-zero
  number, so \<open>expect\<close> is truthy whenever it is given.
\<close>

definition checkExpect :: "FieldType option \<Rightarrow> FieldType \<Rightarrow> error option" where
  "checkExpect expect cls =
     (case expect of
        None \<Rightarrow> None
      | Some e \<Rightarrow> if static_type cls \<noteq> Some e then Some (ExpectedButGot e cls) else None)"

text \<open>
  \<open>nextByteCount\<close>: the fixed size of the class, or the 32-bit big-endian length read
  from the next four bytes.
\<close>

definition nextByteCount :: "FieldType \<Rightarrow> stream \<Rightarrow> (error + nat) \<times> stream" where
  "nextByteCount cls s =
     (case bytesToRead cls of
        Some n \<Rightarrow> (Inr n, s)
      | None \<Rightarrow>
          (case read s 4 of
             (Inl e, s') \<Rightarrow> (Inl e, s')
           | (Inr lengthData, s') \<Rightarrow> (readUIntBE 4 lengthData, s')))"

text \<open>
  \<open>readField\<close>. The result is the field or the error thrown, with the stream as the
  call leaves it. When the tag byte is in no entry of \<open>fieldMap\<close>, \<open>Field\<close> is
  \<open>undefined\<close> and the next property access (\<open>Field.type\<close> or \<open>Field.bytesToRead\<close>)
  is a \<open>TypeError\<close>.
\<close>

definition readField :: "stream \<Rightarrow> FieldType option \<Rightarrow> (error + Field) \<times> stream" where
  "readField s expect =
     (case read s 1 of
        (Inl e, s1) \<Rightarrow> (Inl e, s1)
      | (Inr typeData, s1) \<Rightarrow>
          (case lookupField typeData of
             None \<Rightarrow> (Inl TypeError, s1)
           | Some cls \<Rightarrow>
               (case checkExpect expect cls of
                  Some err \<Rightarrow> (Inl err, s1)
                | None \<Rightarrow>
                    (case nextByteCount cls s1 of
                       (Inl e, s2) \<Rightarrow> (Inl e, s2)
                     | (Inr n, s2) \<Rightarrow>
                         (case read s2 n of
                            (Inl e, s3) \<Rightarrow> (Inl e, s3)
                          | (Inr payload, s3) \<Rightarrow> (Field_new cls payload, s3))))))"

text \<open>
  A stream that ends before the bytes a field of class \<open>cls\<close> declares have arrived:
  \<open>rest\<close> is what follows the tag byte.
\<close>

definition truncated :: "FieldType \<Rightarrow> stream \<Rightarrow> bool" where
  "truncated cls rest =
     (case bytesToRead cls of
        Some n \<Rightarrow> length rest < n
      | None \<Rightarrow> length rest < 4 \<or> length rest - 4 < be_value (take 4 rest))"

section \<open>The status handler of the command line tool\<close>

text \<open>
  The fields of a status the handler reads. The type \<open>State\<close> is declared in
  \<open>src/status/types\<close>; device and track ids are numbers read from a status packet.
\<close>

record State =
  deviceId :: nat
  trackId :: nat
  trackDeviceId :: nat
  trackSlot :: nat
  trackType :: nat

text \<open>
  The handler, up to the first \<open>await\<close>: \<open>lastTid\<close> is the \<open>Map\<close> from device id to
  track id. It returns at once when the map holds the status's track id for its device;
  else it stores the track id and goes on to report the track (\<open>console.log(trackId)\<close>,
  then the metadata lookup). The second component is the track reported, if any.
\<close>

definition onStatus :: "(nat \<rightharpoonup> nat) \<Rightarrow> State \<Rightarrow> (nat \<rightharpoonup> nat) \<times> (nat \<times> nat) option" where
  "onStatus lastTid state =
     (if lastTid (deviceId state) = Some (trackId state) then (lastTid, None)
      else (lastTid(deviceId state \<mapsto> trackId state), Some (deviceId state, trackId state)))"

text \<open>The handler over a sequence of statuses: the final map and the tracks reported, in order.\<close>

fun onStatuses :: "(nat \<rightharpoonup> nat) \<Rightarrow> State list \<Rightarrow> (nat \<rightharpoonup> nat) \<times> (nat \<times> nat) list" where
  "onStatuses lastTid [] = (lastTid, [])"
| "onStatuses lastTid (state # states) =
     (case onStatus lastTid state of
        (lastTid', out) \<Rightarrow>
          (case onStatuses lastTid' states of
             (lastTid'', outs) \<Rightarrow>
               (lastTid'', (case out of None \<Rightarrow> outs | Some ev \<Rightarrow> ev # outs))))"

text \<open>The track id a device reported last in a sequence of statuses, if it reported any.\<close>

fun lastReported :: "State list \<Rightarrow> nat \<Rightarrow> nat option" where
  "lastReported [] d = None"
| "lastReported (state # states) d =
     (case lastReported states d of
        Some t \<Rightarrow> Some t
      | None \<Rightarrow> if deviceId state = d then Some (trackId state) else None)"

section \<open>Properties of the accessors\<close>

lemma length_be_bytes: "length (be_bytes n x) = n"
  by (induction n arbitrary: x) auto

lemma be_value_snoc: "be_value (bs @ [b]) = be_value bs * 256 + unat b"
  by (simp add: be_value_def)

lemma be_value_Nil: "be_value [] = 0"
  by (simp add: be_value_def)

lemma unat_byte_of_nat: "unat (of_nat x :: byte) = x mod 256"
  by (simp add: unat_of_nat)

lemma be_value_be_bytes: "be_value (be_bytes n x) = x mod 256 ^ n"
proof (induction n arbitrary: x)
  case 0
  then show ?case by (simp add: be_value_Nil)
next
  case (Suc n)
  have "be_value (be_bytes (Suc n) x) = (x div 256) mod 256 ^ n * 256 + x mod 256"
    by (simp add: be_value_snoc Suc unat_byte_of_nat)
  also have "\<dots> = x mod 256 ^ Suc n"
    by (simp add: mod_mult2_eq mult.commute)
  finally show ?case .
qed

lemma be_value_bound: "be_value bs < 256 ^ length bs"
proof (induction bs rule: rev_induct)
  case Nil
  then show ?case by (simp add: be_value_Nil)
next
  case (snoc b bs)
  have "unat b < 256" using unsigned_less [of b, where ?'a = nat] by simp
  with snoc show ?case by (simp add: be_value_snoc)
qed

lemma be_bytes_be_value: "be_bytes (length bs) (be_value bs) = bs"
proof (induction bs rule: rev_induct)
  case Nil
  then show ?case by simp
next
  case (snoc b bs)
  have b: "unat b < 256" using unsigned_less [of b, where ?'a = nat] by simp
  then have d: "(be_value bs * 256 + unat b) div 256 = be_value bs" by simp
  have "(of_nat (be_value bs * 256 + unat b) :: byte) = b"
    unfolding word_unat_eq_iff [of _ b] using b by (simp only: unat_of_nat) simp
  with snoc d show ?case by (simp add: be_value_snoc)
qed







lemma be_bytes_1: "be_bytes 1 x = [of_nat x]"
  unfolding One_nat_def by simp

lemma be_bytes_2: "be_bytes 2 x = [of_nat (x div 256), of_nat x]"
proof -
  have "be_bytes (Suc (Suc 0)) x = [of_nat (x div 256), of_nat x]"
    by (simp only: be_bytes.simps append.simps)
  then show ?thesis by (simp only: numeral_2_eq_2)
qed

lemma be_bytes_4:
  "be_bytes 4 x =
     [of_nat (x div 256 div 256 div 256), of_nat (x div 256 div 256), of_nat (x div 256), of_nat x]"
proof -
  have four: "(4::nat) = Suc (Suc (Suc (Suc 0)))"
    by simp
  have "be_bytes (Suc (Suc (Suc (Suc 0)))) x =
     [of_nat (x div 256 div 256 div 256), of_nat (x div 256 div 256), of_nat (x div 256), of_nat x]"
    by (simp only: be_bytes.simps append.simps)
  then show ?thesis by (simp only: four)
qed

lemma floor_three_halves: "\<lfloor>3 / 2 :: rat\<rfloor> = 1"
  using floor_divide_of_int_eq [of 3 2, where ?'a = rat] by simp

lemma fieldMap_None_iff: "fieldMap b = None \<longleftrightarrow> b \<notin> {0x0f, 0x10, 0x11, 0x26, 0x14}"
  by (simp add: fieldMap_def)

lemma read_1_Cons: "read (b # rest) (Suc 0) = (Inr [b], rest)"
  by (simp add: read_def stream_read_def)

lemma numberBufferInfo_cases:
  "numberBufferInfo t = Some n \<Longrightarrow> (t = UInt8 \<and> n = 1) \<or> (t = UInt16 \<and> n = 2) \<or> (t = UInt32 \<and> n = 4)"
  by (cases t) auto

lemma max_lt_32: "n \<le> 4 \<Longrightarrow> (2::nat) ^ (8 * n) - 1 < 2 ^ 32"
proof -
  assume "n \<le> 4"
  then have "(2::nat) ^ (8 * n) \<le> 2 ^ 32"
    by (intro power_increasing) simp_all
  moreover have "(0::nat) < 2 ^ (8 * n)"
    by simp
  ultimately show ?thesis
    by linarith
qed

lemma ToUint32_in_range:
  assumes "0 \<le> q" and "q \<le> of_nat mx" and "mx < 2 ^ 32"
  shows "ToUint32 (Finite q) = nat \<lfloor>q\<rfloor>"
proof -
  have nonneg: "0 \<le> \<lfloor>q\<rfloor>"
    using assms(1) by simp
  have "\<lfloor>q\<rfloor> \<le> \<lfloor>(of_nat mx :: rat)\<rfloor>"
    using assms(2) by (rule floor_mono)
  then have "\<lfloor>q\<rfloor> \<le> int mx"
    by simp
  moreover have "int mx < 2 ^ 32"
    using assms(3) by simp
  ultimately have "\<lfloor>q\<rfloor> < 2 ^ 32"
    by linarith
  with nonneg have "\<lfloor>q\<rfloor> mod 2 ^ 32 = \<lfloor>q\<rfloor>"
    by simp
  with assms(1) show ?thesis
    by simp
qed

lemma writeUIntBE_in_range:
  assumes "0 \<le> q" and "q \<le> of_nat (2 ^ (8 * n) - 1)" and "n \<le> 4"
  shows "writeUIntBE n (Finite q) = Inr (be_bytes n (nat \<lfloor>q\<rfloor>))"
proof -
  have "\<not> out_of_range (Finite q) (2 ^ (8 * n) - 1)"
    using assms(1,2) by (simp only: out_of_range.simps) simp
  moreover have "ToUint32 (Finite q) = nat \<lfloor>q\<rfloor>"
    using assms(1,2) max_lt_32 [OF assms(3)] by (rule ToUint32_in_range)
  ultimately show ?thesis
    by (simp only: writeUIntBE_def if_False)
qed

lemma writeUIntBE_nat:
  assumes "k < 2 ^ (8 * n)" and "n \<le> 4"
  shows "writeUIntBE n (Finite (of_nat k)) = Inr (be_bytes n k)"
proof -
  have "k \<le> 2 ^ (8 * n) - 1"
    using assms(1) by simp
  then have le: "(of_nat k :: rat) \<le> of_nat (2 ^ (8 * n) - 1)"
    by (simp only: of_nat_le_iff)
  have nonneg: "(0::rat) \<le> of_nat k"
    by simp
  show ?thesis
    using writeUIntBE_in_range [OF nonneg le assms(2)] by simp
qed

lemma writeUIntBE_out_of_range:
  assumes "q < 0 \<or> of_nat (2 ^ (8 * n) - 1) < q"
  shows "writeUIntBE n (Finite q) = Inl RangeError"
proof -
  have "out_of_range (Finite q) (2 ^ (8 * n) - 1)"
    using assms by (simp only: out_of_range.simps) blast
  then show ?thesis
    by (simp only: writeUIntBE_def if_True)
qed

lemma writeUIntBE_Inr_length: "writeUIntBE n v = Inr d \<Longrightarrow> length d = n"
  by (auto simp add: writeUIntBE_def length_be_bytes split: if_splits)

lemma numberBufferInfo_le_4: "numberBufferInfo t = Some n \<Longrightarrow> n \<le> 4"
  by (cases t) auto

lemma be_value_be_bytes_id:
  assumes "k < 2 ^ (8 * n)"
  shows "be_value (be_bytes n k) = k"
proof -
  have "(256::nat) ^ n = 2 ^ (8 * n)"
    by (simp add: power_mult)
  with assms show ?thesis
    by (simp add: be_value_be_bytes)
qed

lemma makeNumberField_VNumber:
  assumes "numberBufferInfo t = Some n"
  shows "makeNumberField t (VNumber v) =
     (case writeUIntBE n v of Inl e \<Rightarrow> Inl e | Inr d \<Rightarrow> Inr (NumberField t v d))"
  using assms by (simp add: makeNumberField_def parseNumber_def split: sum.splits)




lemma makeVariableBuffer_eq:
  assumes "length d < 2 ^ 32"
  shows "makeVariableBuffer t d = Inr (tag t # be_bytes 4 (length d) @ d)"
proof -
  have "length d < 2 ^ (8 * 4)"
    using assms by simp
  then have "writeUIntBE 4 (Finite (of_nat (length d))) = Inr (be_bytes 4 (length d))"
    by (rule writeUIntBE_nat) simp
  then show ?thesis
    by (simp add: makeVariableBuffer_def)
qed

lemma makeNumberField_VBuffer:
  assumes "numberBufferInfo t = Some n"
  shows "makeNumberField t (VBuffer p) =
     (if length p < n then Inl RangeError
      else Inr (NumberField t (Finite (of_nat (be_value (take n p)))) p))"
  using assms by (simp add: makeNumberField_def parseNumber_def readUIntBE_def)

lemma Field_new_number:
  "numberBufferInfo t = Some n \<Longrightarrow> Field_new t p = makeNumberField t (VBuffer p)"
  by (cases t) simp_all


lemma number_round_trip:
  assumes "numberBufferInfo t = Some n" and "k < 2 ^ (8 * n)"
  shows "makeNumberField t (VNumber (Finite (of_nat k))) =
      Inr (NumberField t (Finite (of_nat k)) (be_bytes n k))"
    and "Field_new t (be_bytes n k) = Inr (NumberField t (Finite (of_nat k)) (be_bytes n k))"
proof -
  show "makeNumberField t (VNumber (Finite (of_nat k))) =
      Inr (NumberField t (Finite (of_nat k)) (be_bytes n k))"
    by (simp add: makeNumberField_VNumber [OF assms(1)]
        writeUIntBE_nat [OF assms(2) numberBufferInfo_le_4 [OF assms(1)]])
  show "Field_new t (be_bytes n k) = Inr (NumberField t (Finite (of_nat k)) (be_bytes n k))"
    by (simp add: Field_new_number [OF assms(1)] makeNumberField_VBuffer [OF assms(1)]
        length_be_bytes be_value_be_bytes_id [OF assms(2)])
qed

section \<open>The field codec\<close>

text \<open>
  C5, as stated, at a numeric field built from a buffer longer than its width:
  \<open>new UInt8(Buffer.from([1, 2]))\<close> keeps both bytes as its data and encodes to three
  bytes, the tag and the data, not to the tag and the one byte of its value.
\<close>

theorem buffer_layout_counterexample:
  "makeNumberField UInt8 (VBuffer [1, 2]) = Inr (NumberField UInt8 (Finite 1) [1, 2])
   \<and> buffer (NumberField UInt8 (Finite 1) [1, 2]) = Inr [0x0f, 1, 2]"
  by (simp add: makeNumberField_VBuffer be_value_def)

text \<open>
  C5, amended. The wire layout. Every numeric field encodes to its tag byte followed by
  its data; for a field built from an integer within its range, or decoded from a payload
  of exactly its width, that is the tag byte followed by the big-endian bytes of the
  value, \<open>1 + N\<close> bytes with \<open>N\<close> in \<open>{1, 2, 4}\<close>. Every \<open>String\<close> and \<open>Binary\<close>
  field with less than \<open>2^32\<close> bytes of data encodes to the tag byte, the length of its
  data as 4 big-endian bytes, then the data: 5 bytes followed by the payload.
\<close>

theorem buffer_layout:
  "buffer (NumberField t x d') = Inr (tag t # d')
   \<and> (numberBufferInfo t = Some n \<and> k < 2 ^ (8 * n)
      \<and> makeNumberField t (VNumber (Finite (of_nat k))) = Inr f \<longrightarrow>
        buffer f = Inr (tag t # be_bytes n k)
        \<and> be_value (be_bytes n k) = k
        \<and> length (tag t # be_bytes n k) = 1 + n \<and> n \<in> {1, 2, 4})
   \<and> (numberBufferInfo t = Some n \<and> length p = n \<and> Field_new t p = Inr f' \<longrightarrow>
        f' = NumberField t (Finite (of_nat (be_value p))) p
        \<and> buffer f' = Inr (tag t # be_bytes n (be_value p))
        \<and> length (tag t # be_bytes n (be_value p)) = 1 + n)
   \<and> (length d < 2 ^ 32 \<longrightarrow>
        buffer (StringField s d) = Inr (tag String # be_bytes 4 (length d) @ d)
        \<and> buffer (BinaryField v d) = Inr (tag Binary # be_bytes 4 (length d) @ d)
        \<and> length (be_bytes 4 (length d)) = 4
        \<and> be_value (be_bytes 4 (length d)) = length d
        \<and> length (tag Binary # be_bytes 4 (length d) @ d) = 5 + length d)"
proof (intro conjI impI)
  show "buffer (NumberField t x d') = Inr (tag t # d')"
    by simp
next
  assume a: "numberBufferInfo t = Some n \<and> k < 2 ^ (8 * n)
      \<and> makeNumberField t (VNumber (Finite (of_nat k))) = Inr f"
  then have h: "numberBufferInfo t = Some n" and k: "k < 2 ^ (8 * n)"
    by simp_all
  from a have "f = NumberField t (Finite (of_nat k)) (be_bytes n k)"
    using number_round_trip(1) [OF h k] by simp
  then show "buffer f = Inr (tag t # be_bytes n k)"
    by simp
  show "be_value (be_bytes n k) = k"
    using k by (rule be_value_be_bytes_id)
  show "length (tag t # be_bytes n k) = 1 + n"
    by (simp add: length_be_bytes)
  show "n \<in> {1, 2, 4}"
    using numberBufferInfo_cases [OF h] by auto
next
  assume a: "numberBufferInfo t = Some n \<and> length p = n \<and> Field_new t p = Inr f'"
  then have h: "numberBufferInfo t = Some n" and p: "length p = n"
    by simp_all
  from a have "Field_new t p = Inr f'"
    by simp
  then show f': "f' = NumberField t (Finite (of_nat (be_value p))) p"
    using p by (auto simp add: Field_new_number [OF h] makeNumberField_VBuffer [OF h])
  have "be_bytes n (be_value p) = p"
    using be_bytes_be_value [of p] p by simp
  then show "buffer f' = Inr (tag t # be_bytes n (be_value p))"
    using f' by simp
  show "length (tag t # be_bytes n (be_value p)) = 1 + n"
    by (simp add: length_be_bytes)
next
  assume d: "length d < 2 ^ 32"
  show "buffer (StringField s d) = Inr (tag String # be_bytes 4 (length d) @ d)"
    using d by (simp add: makeVariableBuffer_eq del: tag.simps)
  show "buffer (BinaryField v d) = Inr (tag Binary # be_bytes 4 (length d) @ d)"
    using d by (simp add: makeVariableBuffer_eq del: tag.simps)
  show "length (be_bytes 4 (length d)) = 4"
    by (rule length_be_bytes)
  show "be_value (be_bytes 4 (length d)) = length d"
    using d by (intro be_value_be_bytes_id) simp
  show "length (tag Binary # be_bytes 4 (length d) @ d) = 5 + length d"
    by (simp add: length_be_bytes)
qed

theorem buffer_layout_witness:
  "buffer (NumberField UInt16 (Finite 258) [1, 2]) = Inr [0x10, 1, 2]
   \<and> buffer (NumberField UInt8 (Finite 7) [7]) = Inr [0x0f, 7]
   \<and> buffer (StringField [0x41] [0, 0x41]) = Inr [0x26, 0, 0, 0, 2, 0, 0x41]
   \<and> buffer (BinaryField [1, 2, 3] [1, 2, 3]) = Inr [0x14, 0, 0, 0, 3, 1, 2, 3]"
proof -
  have "makeNumberField UInt16 (VNumber (Finite (of_nat 258))) = Inr (NumberField UInt16 (Finite 258) [1, 2])"
    by (simp add: makeNumberField_VNumber writeUIntBE_def be_bytes_2)
  moreover have "Field_new UInt8 [7] = Inr (NumberField UInt8 (Finite 7) [7])"
    by (simp add: makeNumberField_VBuffer be_value_def)
  ultimately show ?thesis
    using buffer_layout [where t = UInt16 and n = 2 and k = 258
        and f = "NumberField UInt16 (Finite 258) [1, 2]" and p = "[1, 2]"
        and f' = "NumberField UInt16 (Finite 258) [1, 2]"
        and d = "[0, 0x41]" and s = "[0x41]" and v = "[0, 0x41]"]
      buffer_layout [where t = UInt8 and n = 1 and k = 7
        and f = "NumberField UInt8 (Finite 7) [7]" and p = "[7]"
        and f' = "NumberField UInt8 (Finite 7) [7]"
        and d = "[1, 2, 3]" and s = "[]" and v = "[1, 2, 3]"]
    by (simp add: be_bytes_1 be_bytes_2 be_bytes_4 be_value_def)
qed

text \<open>
  C9. Decoding a \<open>String\<close> field from a payload throws exactly when the payload has
  an odd number of bytes (\<open>swap16\<close> refuses it); an odd payload never gives a string, and
  every payload of even length, the empty one included, decodes to a string whose data
  is the payload.
\<close>

theorem String_new_Buffer_odd_iff:
  "String_new (VBuffer p) =
     (if odd (length p) then Inl InvalidBufferSize
      else Inr (StringField (utf16le_string (swap_pairs p)) p))
   \<and> ((\<exists>e. String_new (VBuffer p) = Inl e) \<longleftrightarrow> odd (length p))
   \<and> ((\<exists>s. String_new (VBuffer p) = Inr (StringField s p)) \<longleftrightarrow> even (length p))"
  by (simp add: String_new_def swap16_def)

theorem String_new_Buffer_odd_iff_witness:
  "String_new (VBuffer [0, 0x41, 0]) = Inl InvalidBufferSize
   \<and> String_new (VBuffer [0, 0x41]) = Inr (StringField [0x41] [0, 0x41])
   \<and> String_new (VBuffer []) = Inr (StringField [] [])"
  using String_new_Buffer_odd_iff [of "[0, 0x41, 0]"] String_new_Buffer_odd_iff [of "[0, 0x41]"]
    String_new_Buffer_odd_iff [of "[]"]
  by simp

text \<open>
  C4, as stated, at a payload that is too long: \<open>new UInt8(Buffer.from([1, 2]))\<close> does
  not fail. It reads the first byte and keeps both bytes as the data.
\<close>

theorem parseNumber_Buffer_counterexample:
  "parseNumber (VBuffer [1, 2]) UInt8 = Inr (Finite 1, [1, 2])
   \<and> makeNumberField UInt8 (VBuffer [1, 2]) = Inr (NumberField UInt8 (Finite 1) [1, 2])"
  by (simp add: makeNumberField_def parseNumber_def readUIntBE_def be_value_def)

text \<open>
  C4, amended. Decoding a \<open>UInt8\<close>, \<open>UInt16\<close> or \<open>UInt32\<close> field from a payload
  \<open>p\<close> throws a \<open>RangeError\<close> whenever \<open>p\<close> has fewer than 1, 2 or 4 bytes; when
  \<open>p\<close> has exactly that many bytes the value is the big-endian unsigned integer of
  \<open>p\<close>; when \<open>p\<close> is longer, the value is the big-endian unsigned integer of its
  first 1, 2 or 4 bytes and the whole of \<open>p\<close> is kept as the data.
\<close>

theorem parseNumber_Buffer:
  assumes "numberBufferInfo t = Some n"
  shows "(length p < n \<longrightarrow> parseNumber (VBuffer p) t = Inl RangeError)
    \<and> (length p = n \<longrightarrow> parseNumber (VBuffer p) t = Inr (Finite (of_nat (be_value p)), p))
    \<and> (n < length p \<longrightarrow>
         parseNumber (VBuffer p) t = Inr (Finite (of_nat (be_value (take n p))), p))"
  using assms by (simp add: parseNumber_def readUIntBE_def)

theorem parseNumber_Buffer_witness:
  "parseNumber (VBuffer [1, 2, 3]) UInt32 = Inl RangeError
   \<and> parseNumber (VBuffer [1, 2, 3, 4]) UInt32 = Inr (Finite 16909060, [1, 2, 3, 4])
   \<and> parseNumber (VBuffer [1, 2, 3, 4, 5]) UInt32 = Inr (Finite 16909060, [1, 2, 3, 4, 5])"
proof -
  have h: "numberBufferInfo UInt32 = Some 4"
    by simp
  show ?thesis
    using parseNumber_Buffer [OF h, of "[1, 2, 3]"] parseNumber_Buffer [OF h, of "[1, 2, 3, 4]"]
      parseNumber_Buffer [OF h, of "[1, 2, 3, 4, 5]"]
    by (simp add: be_value_def)
qed

text \<open>
  C10, as stated, at a non-integer: \<open>new UInt8(1.5)\<close> does not throw. The range check
  of \<open>writeUInt8\<close> passes, the value kept is 1.5 and the byte written is its truncation, 1.
\<close>

theorem makeNumberField_number_counterexample:
  "makeNumberField UInt8 (VNumber (Finite (3 / 2))) = Inr (NumberField UInt8 (Finite (3 / 2)) [1])"
  by (simp add: makeNumberField_def parseNumber_def writeUIntBE_def be_bytes_1 floor_three_halves)

text \<open>
  C10, amended. Constructing a \<open>UInt8\<close>, \<open>UInt16\<close> or \<open>UInt32\<close> field from a number
  below 0 or above \<open>2^N - 1\<close> for its width throws a \<open>RangeError\<close>; from an integer
  within the range it gives a field with that value whose data is the big-endian
  encoding of the value, nothing truncated; from any number within the range it gives a
  field with that value whose data encodes the value's integer part; and every field
  successfully constructed from a number has a data buffer of exactly 1, 2 or 4 bytes and
  a value that, when it is finite, lies within the range of its width.
\<close>

theorem makeNumberField_number:
  assumes "numberBufferInfo t = Some n"
  shows "(q < 0 \<or> of_nat (2 ^ (8 * n) - 1) < q \<longrightarrow>
            makeNumberField t (VNumber (Finite q)) = Inl RangeError)
    \<and> (k < 2 ^ (8 * n) \<longrightarrow>
          makeNumberField t (VNumber (Finite (of_nat k))) =
            Inr (NumberField t (Finite (of_nat k)) (be_bytes n k))
          \<and> be_value (be_bytes n k) = k)
    \<and> (0 \<le> q \<and> q \<le> of_nat (2 ^ (8 * n) - 1) \<longrightarrow>
          makeNumberField t (VNumber (Finite q)) =
            Inr (NumberField t (Finite q) (be_bytes n (nat \<lfloor>q\<rfloor>))))
    \<and> (makeNumberField t (VNumber v) = Inr f \<longrightarrow>
          length (data f) = n \<and> n \<in> {1, 2, 4}
          \<and> (\<forall>r. v = Finite r \<longrightarrow> 0 \<le> r \<and> r \<le> of_nat (2 ^ (8 * n) - 1)))"
proof (intro conjI impI)
  assume "q < 0 \<or> of_nat (2 ^ (8 * n) - 1) < q"
  then show "makeNumberField t (VNumber (Finite q)) = Inl RangeError"
    by (simp add: makeNumberField_VNumber [OF assms] writeUIntBE_out_of_range)
next
  assume k: "k < 2 ^ (8 * n)"
  show "makeNumberField t (VNumber (Finite (of_nat k))) =
      Inr (NumberField t (Finite (of_nat k)) (be_bytes n k))"
    by (simp add: makeNumberField_VNumber [OF assms]
        writeUIntBE_nat [OF k numberBufferInfo_le_4 [OF assms]])
  show "be_value (be_bytes n k) = k"
    using k by (rule be_value_be_bytes_id)
next
  assume "0 \<le> q \<and> q \<le> of_nat (2 ^ (8 * n) - 1)"
  then have "0 \<le> q" and "q \<le> of_nat (2 ^ (8 * n) - 1)"
    by simp_all
  then have "writeUIntBE n (Finite q) = Inr (be_bytes n (nat \<lfloor>q\<rfloor>))"
    using numberBufferInfo_le_4 [OF assms] by (rule writeUIntBE_in_range)
  then show "makeNumberField t (VNumber (Finite q)) =
      Inr (NumberField t (Finite q) (be_bytes n (nat \<lfloor>q\<rfloor>)))"
    by (simp add: makeNumberField_VNumber [OF assms])
next
  assume f: "makeNumberField t (VNumber v) = Inr f"
  then obtain d where d: "writeUIntBE n v = Inr d" and fd: "f = NumberField t v d"
    by (auto simp add: makeNumberField_VNumber [OF assms] split: sum.splits)
  show "length (data f) = n"
    using writeUIntBE_Inr_length [OF d] fd by simp
  show "n \<in> {1, 2, 4}"
    using numberBufferInfo_cases [OF assms] by auto
  show "\<forall>r. v = Finite r \<longrightarrow> 0 \<le> r \<and> r \<le> of_nat (2 ^ (8 * n) - 1)"
    using d by (auto simp add: writeUIntBE_def split: if_splits)
qed

theorem makeNumberField_number_witness:
  "makeNumberField UInt16 (VNumber (Finite (- 1))) = Inl RangeError
   \<and> makeNumberField UInt16 (VNumber (Finite 65536)) = Inl RangeError
   \<and> makeNumberField UInt16 (VNumber (Finite 65535)) = Inr (NumberField UInt16 (Finite 65535) [255, 255])
   \<and> makeNumberField UInt16 (VNumber (Finite 258)) = Inr (NumberField UInt16 (Finite 258) [1, 2])
   \<and> makeNumberField UInt16 (VNumber (Finite (3 / 2))) = Inr (NumberField UInt16 (Finite (3 / 2)) [0, 1])
   \<and> length (data (NumberField UInt16 (Finite 258) [1, 2])) = 2"
proof -
  have h: "numberBufferInfo UInt16 = Some 2"
    by simp
  have half: "(0::rat) \<le> 3 / 2 \<and> (3 / 2 :: rat) \<le> of_nat (2 ^ (8 * 2) - 1)"
    by simp
  show ?thesis
    using makeNumberField_number [OF h, where q = "- 1" and k = 65535 and v = "Finite 258"
        and f = "NumberField UInt16 (Finite 258) [1, 2]"]
      makeNumberField_number [OF h, where q = 65536 and k = 258 and v = "Finite 258"
        and f = "NumberField UInt16 (Finite 258) [1, 2]"]
      makeNumberField_number [OF h, where q = "3 / 2" and k = 258 and v = "Finite 258"
        and f = "NumberField UInt16 (Finite 258) [1, 2]"] half
    by (simp add: be_bytes_2 floor_three_halves)
qed

section \<open>Reading from a stream\<close>

lemma read_Nil: "read [] n = (Inl ExpectedBuffer, [])"
  by (simp add: read_def stream_read_def)

lemma read_some: "0 < n \<Longrightarrow> s \<noteq> [] \<Longrightarrow> read s n = (Inr (take n s), drop n s)"
  by (simp add: read_def stream_read_def)

lemma readField_tag:
  assumes "fieldMap b = Some cls"
  shows "readField (b # rest) expect =
     (case checkExpect expect cls of
        Some err \<Rightarrow> (Inl err, rest)
      | None \<Rightarrow>
          (case nextByteCount cls rest of
             (Inl e, s2) \<Rightarrow> (Inl e, s2)
           | (Inr n, s2) \<Rightarrow>
               (case read s2 n of
                  (Inl e, s3) \<Rightarrow> (Inl e, s3)
                | (Inr payload, s3) \<Rightarrow> (Field_new cls payload, s3))))"
  using assms by (simp add: readField_def read_1_Cons lookupField_def)

lemma read_payload_number_short_error:
  assumes "numberBufferInfo cls = Some n" and "length rest < n"
  shows "fst (case read rest n of
                  (Inl e, s3) \<Rightarrow> (Inl e, s3)
                | (Inr payload, s3) \<Rightarrow> (Field_new cls payload, s3)) =
         Inl (if rest = [] then ExpectedBuffer else RangeError)"
proof (cases "rest = []")
  case True
  then show ?thesis
    by (simp add: read_Nil)
next
  case False
  from assms(2) have n: "0 < n"
    by simp
  from assms(2) have "take n rest = rest"
    by simp
  then show ?thesis
    using assms False
    by (simp add: read_some [OF n False] Field_new_number [OF assms(1)]
        makeNumberField_VBuffer [OF assms(1)])
qed

lemma bytesToRead_number: "bytesToRead cls = Some n \<Longrightarrow> numberBufferInfo cls = Some n"
  by (cases cls) simp_all

lemma bytesToRead_None: "bytesToRead cls = None \<Longrightarrow> cls = String \<or> cls = Binary"
  by (cases cls) simp_all

lemma nextByteCount_variable:
  assumes "bytesToRead cls = None"
  shows "nextByteCount cls rest =
     (if rest = [] then (Inl ExpectedBuffer, [])
      else if length rest < 4 then (Inl RangeError, [])
      else (Inr (be_value (take 4 rest)), drop 4 rest))"
proof (cases "rest = []")
  case True
  with assms show ?thesis
    by (simp add: nextByteCount_def read_Nil)
next
  case False
  have "read rest 4 = (Inr (take 4 rest), drop 4 rest)"
    using False by (intro read_some) simp_all
  with assms False show ?thesis
    by (simp add: nextByteCount_def readUIntBE_def)
qed

lemma readField_short:
  assumes fm: "fieldMap b = Some cls"
    and ok: "checkExpect expect cls = None"
    and tr: "truncated cls rest"
    and bin: "cls = Binary \<longrightarrow> length rest \<le> 4"
    and str: "cls = String \<longrightarrow> length rest \<le> 4 \<or> odd (length rest)"
  shows "fst (readField (b # rest) expect) =
     Inl (if rest = [] \<or> (bytesToRead cls = None \<and> length rest = 4) then ExpectedBuffer
          else if cls = String \<and> 4 < length rest then InvalidBufferSize
          else RangeError)"
proof (cases "bytesToRead cls")
  case (Some n)
  with tr have short: "length rest < n"
    by (simp add: truncated_def)
  from Some have "cls \<noteq> String"
    by auto
  then show ?thesis
    using ok Some read_payload_number_short_error [OF bytesToRead_number [OF Some] short]
    by (simp add: readField_tag [OF fm] nextByteCount_def)
next
  case noSize: None
  note nbc = nextByteCount_variable [OF noSize, of rest]
  show ?thesis
  proof (cases "length rest < 4")
    case True
    then show ?thesis
      using ok noSize by (auto simp add: readField_tag [OF fm] nbc)
  next
    case False
    with tr noSize have declared: "length rest - 4 < be_value (take 4 rest)"
      by (simp add: truncated_def)
    then have pos: "0 < be_value (take 4 rest)"
      by simp
    from False have ne: "rest \<noteq> []"
      by auto
    show ?thesis
    proof (cases "length rest = 4")
      case True
      then have "drop 4 rest = []"
        by simp
      then show ?thesis
        using ok False ne noSize True by (simp add: readField_tag [OF fm] nbc read_Nil)
    next
      case more: False
      with False have gt: "4 < length rest"
        by simp
      with bin str bytesToRead_None [OF noSize] have cls: "cls = String" and odd: "odd (length rest)"
        by auto
      from gt have ne2: "drop 4 rest \<noteq> []"
        by simp
      from declared have all: "take (be_value (take 4 rest)) (drop 4 rest) = drop 4 rest"
        by simp
      from gt odd have "odd (length (drop 4 rest))"
        by simp
      then have "String_new (VBuffer (drop 4 rest)) = Inl InvalidBufferSize"
        by (simp add: String_new_def swap16_def)
      moreover have "nextByteCount String rest = (Inr (be_value (take 4 rest)), drop 4 rest)"
        using False ne by (simp add: nextByteCount_variable)
      ultimately show ?thesis
        using ok cls gt ne
        by (simp add: readField_tag [OF fm] read_some [OF pos ne2] all)
    qed
  qed
qed

text \<open>
  C2, as stated, at a \<open>Binary\<close> field that declares 3 bytes on a stream that ends
  after 2 of them: the last read resolves with the 2 bytes that are left, and
  \<open>readField\<close> returns a field built from them.
\<close>

theorem readField_truncated_counterexample:
  "truncated Binary [0, 0, 0, 3, 1, 2]
   \<and> readField [0x14, 0, 0, 0, 3, 1, 2] None = (Inr (BinaryField [1, 2] [1, 2]), [])"
  by (simp add: truncated_def readField_def read_def stream_read_def lookupField_def fieldMap_def
      checkExpect_def nextByteCount_def readUIntBE_def be_value_def Binary_new_def)

text \<open>
  C2, amended. On a stream that ends before the declared bytes of the field have
  arrived, \<open>readField\<close> throws and returns no field when the field is a \<open>UInt8\<close>,
  \<open>UInt16\<close> or \<open>UInt32\<close>, when the 4-byte length of a \<open>String\<close> or \<open>Binary\<close>
  field is incomplete, when no byte of the payload is left, and when the payload of a
  \<open>String\<close> is cut to an odd number of bytes. A failed type check comes first; else
  the error is the one of \<open>read\<close> when nothing is left to read, and the
  \<open>RangeError\<close> or buffer size error that the short buffer raises when some bytes are.
\<close>

theorem readField_truncated:
  assumes fm: "fieldMap b = Some cls"
    and tr: "truncated cls rest"
    and bin: "cls = Binary \<longrightarrow> length rest \<le> 4"
    and str: "cls = String \<longrightarrow> length rest \<le> 4 \<or> odd (length rest)"
  shows "fst (readField (b # rest) expect) =
     Inl (case checkExpect expect cls of
            Some err \<Rightarrow> err
          | None \<Rightarrow>
              if rest = [] \<or> (bytesToRead cls = None \<and> length rest = 4) then ExpectedBuffer
              else if cls = String \<and> 4 < length rest then InvalidBufferSize
              else RangeError)"
proof (cases "checkExpect expect cls")
  case (Some err)
  then show ?thesis
    by (simp add: readField_tag [OF fm])
next
  case None
  from readField_short [OF fm None tr bin str] None show ?thesis
    by simp
qed

theorem readField_truncated_witness:
  "fst (readField [0x0f] None) = Inl ExpectedBuffer
   \<and> fst (readField [0x10, 1] None) = Inl RangeError
   \<and> fst (readField [0x11, 1, 2, 3] (Some UInt32)) = Inl RangeError
   \<and> fst (readField [0x26, 0, 0, 0, 2, 0] None) = Inl InvalidBufferSize
   \<and> fst (readField [0x14, 0, 0, 0, 1] (Some Binary)) = Inl ExpectedBuffer
   \<and> fst (readField [0x14, 0, 0, 1] None) = Inl RangeError"
proof -
  have fm: "fieldMap 0x0f = Some UInt8" "fieldMap 0x10 = Some UInt16" "fieldMap 0x11 = Some UInt32"
    "fieldMap 0x26 = Some String" "fieldMap 0x14 = Some Binary"
    by (simp_all add: fieldMap_def)
  have tr: "truncated UInt8 []" "truncated UInt16 [1]" "truncated UInt32 [1, 2, 3]"
    "truncated String [0, 0, 0, 2, 0]" "truncated Binary [0, 0, 0, 1]" "truncated Binary [0, 0, 1]"
    by (simp_all add: truncated_def be_value_def)
  note ev = readField_def read_def stream_read_def lookupField_def fieldMap_def
      checkExpect_def nextByteCount_def readUIntBE_def be_value_def makeNumberField_def
      parseNumber_def String_new_def swap16_def
  have "fst (readField [0x0f] None) = Inl ExpectedBuffer"
    using readField_truncated [OF fm(1) tr(1), of None] by (simp add: ev)
  moreover have "fst (readField [0x10, 1] None) = Inl RangeError"
    using readField_truncated [OF fm(2) tr(2), of None] by (simp add: ev)
  moreover have "fst (readField [0x11, 1, 2, 3] (Some UInt32)) = Inl RangeError"
    using readField_truncated [OF fm(3) tr(3), of "Some UInt32"] by (simp add: ev)
  moreover have "fst (readField [0x26, 0, 0, 0, 2, 0] None) = Inl InvalidBufferSize"
    using readField_truncated [OF fm(4) tr(4), of None] by (simp add: ev)
  moreover have "fst (readField [0x14, 0, 0, 0, 1] (Some Binary)) = Inl ExpectedBuffer"
    using readField_truncated [OF fm(5) tr(5), of "Some Binary"] by (simp add: ev)
  moreover have "fst (readField [0x14, 0, 0, 1] None) = Inl RangeError"
    using readField_truncated [OF fm(5) tr(6), of None] by (simp add: ev)
  ultimately show ?thesis
    by (simp only: simp_thms)
qed

text \<open>
  C6. When the first byte of the stream is none of the five tags \<open>0x0f\<close>, \<open>0x10\<close>,
  \<open>0x11\<close>, \<open>0x26\<close>, \<open>0x14\<close>, \<open>readField\<close> throws (the class looked up is
  \<open>undefined\<close>, and reading its \<open>type\<close> or \<open>bytesToRead\<close> is a \<open>TypeError\<close>),
  whatever type is expected; it returns no field and has consumed the tag byte only.
\<close>

theorem readField_unknown_tag:
  assumes "b \<notin> {0x0f, 0x10, 0x11, 0x26, 0x14}"
  shows "readField (b # rest) expect = (Inl TypeError, rest)"
proof -
  from assms have "fieldMap b = None"
    by (simp add: fieldMap_None_iff)
  then show ?thesis
    by (simp add: readField_def read_1_Cons lookupField_def)
qed

theorem readField_unknown_tag_witness:
  "(0x27 :: byte) \<notin> {0x0f, 0x10, 0x11, 0x26, 0x14}
   \<and> readField [0x27, 0, 0, 0, 1, 7] None = (Inl TypeError, [0, 0, 0, 1, 7])
   \<and> readField [0x27, 0, 0, 0, 1, 7] (Some Binary) = (Inl TypeError, [0, 0, 0, 1, 7])"
proof -
  have h: "(0x27 :: byte) \<notin> {0x0f, 0x10, 0x11, 0x26, 0x14}"
    by simp
  show ?thesis
    using h readField_unknown_tag [OF h, of "[0, 0, 0, 1, 7]" None]
      readField_unknown_tag [OF h, of "[0, 0, 0, 1, 7]" "Some Binary"]
    by simp
qed

text \<open>
  C3, on the code: with \<open>String\<close> expected and the tag of \<open>String\<close> read,
  \<open>readField\<close> throws \<open>Expected String but got String\<close> and reads no further,
  whatever follows the tag. The check compares the expected type with \<open>String.type\<close>,
  which is \<open>undefined\<close>.
\<close>

theorem readField_expect_String:
  "readField (0x26 # rest) (Some String) = (Inl (ExpectedButGot String String), rest)"
  by (simp add: readField_def read_1_Cons lookupField_def fieldMap_def checkExpect_def)

text \<open>
  The rest of the protocol, for reference. The type check passes exactly for a class
  other than \<open>String\<close> that is the expected one; a failed check leaves the stream right
  after the tag byte.
\<close>

lemma checkExpect_None_iff:
  "checkExpect (Some e) cls = None \<longleftrightarrow> cls = e \<and> cls \<noteq> String"
  by (cases cls; cases e) (simp_all add: checkExpect_def)

lemma readField_unexpected:
  assumes "fieldMap b = Some cls" and "cls \<noteq> e \<or> cls = String"
  shows "readField (b # rest) (Some e) = (Inl (ExpectedButGot e cls), rest)"
proof -
  from assms(2) have "checkExpect (Some e) cls = Some (ExpectedButGot e cls)"
    by (cases cls; cases e) (simp_all add: checkExpect_def)
  then show ?thesis
    by (simp add: readField_tag [OF assms(1)])
qed










section \<open>The status handler\<close>

lemma onStatus_emits_iff:
  "snd (onStatus m s) \<noteq> None \<longleftrightarrow> m (deviceId s) \<noteq> Some (trackId s)"
  by (simp add: onStatus_def)

lemma onStatus_map:
  "fst (onStatus m s) = m(deviceId s \<mapsto> trackId s)"
  by (auto simp add: onStatus_def)

lemma onStatuses_append:
  "onStatuses m (xs @ ys) =
     (case onStatuses m xs of
        (m', outs) \<Rightarrow> (case onStatuses m' ys of (m'', outs') \<Rightarrow> (m'', outs @ outs')))"
  by (induction xs arbitrary: m) (auto split: prod.splits option.splits)

lemma snd_onStatuses_append:
  "snd (onStatuses m (xs @ ys)) =
     snd (onStatuses m xs) @ snd (onStatuses (fst (onStatuses m xs)) ys)"
  by (simp add: onStatuses_append split: prod.splits)

lemma fst_onStatuses:
  "fst (onStatuses m xs) d = (case lastReported xs d of Some t \<Rightarrow> Some t | None \<Rightarrow> m d)"
proof (induction xs arbitrary: m)
  case Nil
  then show ?case by simp
next
  case (Cons x xs)
  have "fst (onStatuses m (x # xs)) = fst (onStatuses (fst (onStatus m x)) xs)"
    by (simp split: prod.splits)
  then show ?case
    by (simp add: Cons onStatus_map split: option.splits)
qed

lemma onStatuses_snoc:
  "onStatuses m (xs @ [s]) =
     (fst (onStatus (fst (onStatuses m xs)) s),
      snd (onStatuses m xs) @ (case snd (onStatus (fst (onStatuses m xs)) s) of None \<Rightarrow> [] | Some ev \<Rightarrow> [ev]))"
  by (simp add: onStatuses_append split: prod.splits option.splits)

lemma onStatuses_same:
  assumes "m d = Some t" and "\<forall>x\<in>set ys. deviceId x = d \<and> trackId x = t"
  shows "onStatuses m ys = (m, [])"
  using assms(2)
proof (induction ys)
  case Nil
  show ?case by simp
next
  case (Cons y rest)
  from Cons.prems have y: "deviceId y = d \<and> trackId y = t"
    by simp
  from Cons.prems have "\<forall>x\<in>set rest. deviceId x = d \<and> trackId x = t"
    by simp
  then have rest: "onStatuses m rest = (m, [])"
    by (rule Cons.IH)
  have "onStatus m y = (m, None)"
    using assms(1) y by (simp add: onStatus_def)
  then show ?case
    by (simp add: rest)
qed

lemma onStatuses_changed:
  assumes "m d \<noteq> Some t" and "\<forall>x\<in>set ys. deviceId x = d \<and> trackId x = t" and "ys \<noteq> []"
  shows "snd (onStatuses m ys) = [(d, t)]"
proof (cases ys)
  case Nil
  with assms(3) show ?thesis by simp
next
  case (Cons y rest)
  with assms(2) have y: "deviceId y = d" "trackId y = t"
    and rest: "\<forall>x\<in>set rest. deviceId x = d \<and> trackId x = t"
    by simp_all
  have "onStatus m y = (m(d \<mapsto> t), Some (d, t))"
    using assms(1) y by (simp add: onStatus_def)
  moreover have "(m(d \<mapsto> t)) d = Some t"
    by simp
  then have "onStatuses (m(d \<mapsto> t)) rest = (m(d \<mapsto> t), [])"
    using rest by (rule onStatuses_same)
  ultimately show ?thesis
    using Cons by simp
qed

text \<open>
  C7. De-duplication, keyed by device. Starting with the empty map, after any sequence
  of statuses the handler reports the track of the next status exactly when its track id
  differs from the track id that device reported last (or the device has not reported
  yet). So any number of consecutive statuses of one device with one track id gives
  exactly one report, for the first of them, when the track id is new for the device,
  and none when it is the one recorded.
\<close>

theorem lastTid_dedup:
  "(snd (onStatuses Map.empty (past @ [s])) =
      snd (onStatuses Map.empty past) @
        (if lastReported past (deviceId s) = Some (trackId s) then []
         else [(deviceId s, trackId s)]))
   \<and> ((\<forall>x\<in>set ys. deviceId x = d \<and> trackId x = t) \<and> ys \<noteq> []
        \<and> lastReported past d \<noteq> Some t \<longrightarrow>
        snd (onStatuses Map.empty (past @ ys)) = snd (onStatuses Map.empty past) @ [(d, t)])
   \<and> ((\<forall>x\<in>set ys. deviceId x = d \<and> trackId x = t) \<and> lastReported past d = Some t \<longrightarrow>
        snd (onStatuses Map.empty (past @ ys)) = snd (onStatuses Map.empty past))"
proof (intro conjI impI)
  have "fst (onStatuses Map.empty past) (deviceId s) = lastReported past (deviceId s)"
    by (simp add: fst_onStatuses split: option.splits)
  then show "snd (onStatuses Map.empty (past @ [s])) =
      snd (onStatuses Map.empty past) @
        (if lastReported past (deviceId s) = Some (trackId s) then []
         else [(deviceId s, trackId s)])"
    by (simp add: onStatuses_snoc onStatus_def)
next
  have last: "fst (onStatuses Map.empty past) d = lastReported past d"
    by (simp add: fst_onStatuses split: option.splits)
  assume a: "(\<forall>x\<in>set ys. deviceId x = d \<and> trackId x = t) \<and> ys \<noteq> []
        \<and> lastReported past d \<noteq> Some t"
  then have "fst (onStatuses Map.empty past) d \<noteq> Some t"
    using last by simp
  moreover from a have "\<forall>x\<in>set ys. deviceId x = d \<and> trackId x = t" and "ys \<noteq> []"
    by simp_all
  ultimately have "snd (onStatuses (fst (onStatuses Map.empty past)) ys) = [(d, t)]"
    by (rule onStatuses_changed)
  then show "snd (onStatuses Map.empty (past @ ys)) = snd (onStatuses Map.empty past) @ [(d, t)]"
    by (simp only: snd_onStatuses_append)
next
  have last: "fst (onStatuses Map.empty past) d = lastReported past d"
    by (simp add: fst_onStatuses split: option.splits)
  assume a: "(\<forall>x\<in>set ys. deviceId x = d \<and> trackId x = t) \<and> lastReported past d = Some t"
  then have "fst (onStatuses Map.empty past) d = Some t"
    using last by simp
  moreover from a have "\<forall>x\<in>set ys. deviceId x = d \<and> trackId x = t"
    by simp
  ultimately have "onStatuses (fst (onStatuses Map.empty past)) ys = (fst (onStatuses Map.empty past), [])"
    by (rule onStatuses_same)
  then show "snd (onStatuses Map.empty (past @ ys)) = snd (onStatuses Map.empty past)"
    by (simp only: snd_onStatuses_append snd_conv append_Nil2)
qed

theorem lastTid_dedup_witness:
  "snd (onStatuses Map.empty
      ([\<lparr>deviceId = 1, trackId = 100, trackDeviceId = 1, trackSlot = 3, trackType = 1\<rparr>,
        \<lparr>deviceId = 2, trackId = 100, trackDeviceId = 1, trackSlot = 3, trackType = 1\<rparr>]
        @ replicate 3 \<lparr>deviceId = 1, trackId = 101, trackDeviceId = 1, trackSlot = 3, trackType = 1\<rparr>)) =
     [(1, 100), (2, 100), (1, 101)]
   \<and> snd (onStatuses Map.empty
      ([\<lparr>deviceId = 1, trackId = 100, trackDeviceId = 1, trackSlot = 3, trackType = 1\<rparr>,
        \<lparr>deviceId = 2, trackId = 100, trackDeviceId = 1, trackSlot = 3, trackType = 1\<rparr>]
        @ replicate 3 \<lparr>deviceId = 1, trackId = 100, trackDeviceId = 2, trackSlot = 2, trackType = 1\<rparr>)) =
     [(1, 100), (2, 100)]"
proof -
  let ?past = "[\<lparr>deviceId = 1, trackId = 100, trackDeviceId = 1, trackSlot = 3, trackType = 1\<rparr>,
        \<lparr>deviceId = 2, trackId = 100, trackDeviceId = 1, trackSlot = 3, trackType = 1\<rparr>]"
  have past: "snd (onStatuses Map.empty ?past) = [(1, 100), (2, 100)]"
    by (simp add: onStatus_def)
  have l1: "lastReported ?past 1 = Some 100"
    by simp
  have three: "replicate 3 x = [x, x, x]" for x :: State
    by (simp add: numeral_3_eq_3)
  show ?thesis
    using lastTid_dedup [where past = ?past and d = 1 and t = 101
        and ys = "replicate 3 \<lparr>deviceId = 1, trackId = 101, trackDeviceId = 1, trackSlot = 3, trackType = 1\<rparr>"]
      lastTid_dedup [where past = ?past and d = 1 and t = 100
        and ys = "replicate 3 \<lparr>deviceId = 1, trackId = 100, trackDeviceId = 2, trackSlot = 2, trackType = 1\<rparr>"]
      past l1
    by (simp add: three)
qed

end
